theory Spec2Isabelle
  imports Complex_Main "HOL-Library.Log_Nat" "HOL-Library.Multiset"
    "HOL-Library.List_Lexorder" "HOL-Library.Char_ord"
begin

section \<open>Python values used by the review and statistics endpoints\<close>

subsection \<open>Floats\<close>

text \<open>
  \<^verbatim>\<open>ease_factor\<close> and \<^verbatim>\<open>accuracy\<close> are Python floats (IEEE binary64). A finite float is
  modelled by the rational number it denotes, and every arithmetic operation rounds its
  exact result to the nearest number with a 53-bit significand, ties to the even
  significand. The exponent is unbounded in the model: infinities, NaN and overflow
  (beyond about \<open>1.8e308\<close>) are outside it.
\<close>

type_synonym pyfloat = rat

definition ilog2 :: "rat \<Rightarrow> int" where
  \<comment> \<open>for \<open>0 < x\<close>, the exponent \<open>e\<close> with \<open>2^e \<le> x < 2^(e+1)\<close>\<close>
  "ilog2 x = (case quotient_of x of (p, q) \<Rightarrow>
     (let k = bitlen p - bitlen q in if 2 powi k \<le> x then k else k - 1))"

definition round_half_even :: "rat \<Rightarrow> int" where
  "round_half_even x =
     (let f = \<lfloor>x\<rfloor>; r = x - of_int f
      in if r < 1 / 2 then f else if 1 / 2 < r then f + 1 else if even f then f else f + 1)"

definition fl :: "rat \<Rightarrow> pyfloat" where
  \<comment> \<open>rounding to binary64: the unit in the last place of \<open>x\<close> is \<open>2^(e-52)\<close>\<close>
  "fl x = (if x = 0 then 0
           else (let u = 2 powi (ilog2 \<bar>x\<bar> - 52) in of_int (round_half_even (x / u)) * u))"

definition float_lit :: "rat \<Rightarrow> pyfloat" where
  \<comment> \<open>a decimal literal of the source, such as \<^verbatim>\<open>0.1\<close>\<close>
  "float_lit x = fl x"

definition float_of_int :: "int \<Rightarrow> pyfloat" where
  \<comment> \<open>the conversion Python applies to the \<^verbatim>\<open>int\<close> operand of a mixed operation\<close>
  "float_of_int i = fl (of_int i)"

definition fadd :: "pyfloat \<Rightarrow> pyfloat \<Rightarrow> pyfloat" where
  "fadd x y = fl (x + y)"

definition fsub :: "pyfloat \<Rightarrow> pyfloat \<Rightarrow> pyfloat" where
  "fsub x y = fl (x - y)"

definition fmul :: "pyfloat \<Rightarrow> pyfloat \<Rightarrow> pyfloat" where
  "fmul x y = fl (x * y)"

definition int_truediv :: "int \<Rightarrow> int \<Rightarrow> pyfloat" where
  \<comment> \<open>\<^verbatim>\<open>a / b\<close> on two ints, correctly rounded; the callers guard \<^verbatim>\<open>b > 0\<close>\<close>
  "int_truediv a b = fl (of_int a / of_int b)"

definition py_round :: "pyfloat \<Rightarrow> int" where
  \<comment> \<open>\<^verbatim>\<open>round(x)\<close>: the nearest integer, ties to the even one\<close>
  "py_round x = round_half_even x"

definition py_round1 :: "pyfloat \<Rightarrow> pyfloat" where
  \<comment> \<open>\<^verbatim>\<open>round(x, 1)\<close>: the float nearest to \<open>x\<close> rounded to one decimal\<close>
  "py_round1 x = fl (of_int (round_half_even (x * 10)) / 10)"

subsection \<open>Timestamps and calendar dates\<close>

text \<open>
  A naive \<^verbatim>\<open>datetime\<close> is a count of microseconds on the local time line and a
  \<^verbatim>\<open>date\<close> is the number of its day (the proleptic Gregorian ordinal), so that
  \<^verbatim>\<open>timedelta(days=n)\<close> adds \<open>n\<close> days. The time line is unbounded in the model:
  Python's OverflowError on leaving the years 1 to 9999 is outside it.
\<close>

type_synonym datetime = int
type_synonym date = int

definition usec_per_day :: int where
  "usec_per_day = 86400000000"

definition timedelta_days :: "int \<Rightarrow> int" where
  "timedelta_days n = n * usec_per_day"

definition date_of :: "datetime \<Rightarrow> date" where
  \<comment> \<open>\<^verbatim>\<open>dt.date()\<close>, and \<^verbatim>\<open>func.date(column)\<close> in a query\<close>
  "date_of t = t div usec_per_day"

definition midnight :: "datetime \<Rightarrow> datetime" where
  \<comment> \<open>\<^verbatim>\<open>dt.replace(hour=0, minute=0, second=0, microsecond=0)\<close>\<close>
  "midnight t = date_of t * usec_per_day"

definition is_leap :: "int \<Rightarrow> bool" where
  "is_leap y = (y mod 4 = 0 \<and> (y mod 100 \<noteq> 0 \<or> y mod 400 = 0))"

definition days_before_year :: "int \<Rightarrow> int" where
  "days_before_year y = (let z = y - 1 in z * 365 + z div 4 - z div 100 + z div 400)"

definition days_in_month :: "int \<Rightarrow> int \<Rightarrow> int" where
  "days_in_month y m =
     (if m = 2 then (if is_leap y then 29 else 28)
      else if m = 4 \<or> m = 6 \<or> m = 9 \<or> m = 11 then 30 else 31)"

definition days_before_month :: "int \<Rightarrow> int \<Rightarrow> int" where
  "days_before_month y m = sum_list (map (days_in_month y) [1..m - 1])"

definition ymd2ord :: "int \<Rightarrow> int \<Rightarrow> int \<Rightarrow> date" where
  \<comment> \<open>\<^verbatim>\<open>date(y, m, d)\<close>: day 1 is 0001-01-01\<close>
  "ymd2ord y m d = days_before_year y + days_before_month y m + d"

definition datetime_at :: "date \<Rightarrow> int \<Rightarrow> datetime" where
  \<comment> \<open>the timestamp \<open>us\<close> microseconds after the start of day \<open>d\<close>\<close>
  "datetime_at d us = d * usec_per_day + us"

definition ord2ymd :: "date \<Rightarrow> int \<times> int \<times> int" where
  \<comment> \<open>year, month and day of a day number\<close>
  "ord2ymd ordinal =
     (let n = ordinal - 1;
          n400 = n div 146097; n = n mod 146097;
          n100 = n div 36524; n = n mod 36524;
          n4 = n div 1461; n = n mod 1461;
          n1 = n div 365; n = n mod 365;
          year = n400 * 400 + 1 + n100 * 100 + n4 * 4 + n1
      in if n1 = 4 \<or> n100 = 4 then (year - 1, 12, 31)
         else (case filter (\<lambda>m. n < days_before_month year (m + 1)) [1..12] of
                 [] \<Rightarrow> (year, 12, 31)
               | m # _ \<Rightarrow> (year, m, n - days_before_month year m + 1)))"

definition digit :: "int \<Rightarrow> char" where
  "digit n = ''0123456789'' ! nat (n mod 10)"

definition digits2 :: "int \<Rightarrow> string" where
  "digits2 n = [digit (n div 10), digit n]"

definition digits4 :: "int \<Rightarrow> string" where
  "digits4 n = [digit (n div 1000), digit (n div 100), digit (n div 10), digit n]"

definition iso_date :: "date \<Rightarrow> string" where
  \<comment> \<open>the text \<^verbatim>\<open>YYYY-MM-DD\<close> of a day: \<^verbatim>\<open>strftime("%Y-%m-%d")\<close>, and what SQLite's
      \<^verbatim>\<open>date()\<close> yields\<close>
  "iso_date d = (case ord2ymd d of (y, m, dd) \<Rightarrow> digits4 y @ ''-'' @ digits2 m @ ''-'' @ digits2 dd)"

definition month_day_text :: "date \<Rightarrow> string" where
  \<comment> \<open>\<^verbatim>\<open>strftime("%m/%d")\<close>\<close>
  "month_day_text d = (case ord2ymd d of (y, m, dd) \<Rightarrow> digits2 m @ ''/'' @ digits2 dd)"

section \<open>The tables\<close>

record Vocabulary =
  voc_id :: int
  kanji :: string
  reading :: "string option"
  meaning :: "string option"
  pos :: "string option"
  example_sentence :: "string option"
  example_meaning :: "string option"

record SRSReview =
  srs_id :: int
  srs_vocab_id :: int
  interval :: int
  ease_factor :: pyfloat
  next_review :: datetime
  reps :: int

record StudyLog =
  log_id :: int
  log_vocab_id :: int
  known :: bool
  studied_at :: datetime

text \<open>
  A database session sees three tables, each a list of rows in storage order. A request
  that raises leaves the database as it was (nothing is committed), so a failing
  endpoint returns only the error: \<open>NotFound\<close> for the 404 an endpoint raises itself,
  \<open>InvalidInput\<close> for a rejected query parameter, and \<open>TypeError\<close> or
  \<open>AttributeError\<close> for an exception that nothing catches.
\<close>

record db =
  vocabulary_rows :: "Vocabulary list"
  srs_rows :: "SRSReview list"
  study_log_rows :: "StudyLog list"

datatype error = NotFound | InvalidInput | TypeError | AttributeError

definition db_wf :: "db \<Rightarrow> bool" where
  \<comment> \<open>the schema's constraints: primary keys are unique, and \<^verbatim>\<open>SRS_Review.vocab_id\<close>
      is a foreign key into \<^verbatim>\<open>Vocabulary\<close>\<close>
  "db_wf d = (distinct (map voc_id (vocabulary_rows d)) \<and>
              distinct (map srs_id (srs_rows d)) \<and>
              list_all (\<lambda>s. srs_vocab_id s \<in> set (map voc_id (vocabulary_rows d))) (srs_rows d))"

definition query_int :: "int \<Rightarrow> int \<Rightarrow> int \<Rightarrow> int option \<Rightarrow> error + int" where
  \<comment> \<open>\<^verbatim>\<open>Query(default, ge=lo, le=hi)\<close>: an absent parameter takes the default, a value
      out of range is rejected before the endpoint's body runs\<close>
  "query_int dflt lo hi v =
     (case v of None \<Rightarrow> Inr dflt
      | Some x \<Rightarrow> if lo \<le> x \<and> x \<le> hi then Inr x else Inl InvalidInput)"

section \<open>Review endpoints\<close>

definition MIN_EASE_FACTOR :: pyfloat where
  "MIN_EASE_FACTOR = float_lit (13 / 10)"

definition MAX_INTERVAL :: int where
  "MAX_INTERVAL = 365"

record AnswerRequest =
  req_vocab_id :: int
  req_known :: bool

record AnswerResponse =
  resp_vocab_id :: int
  resp_next_review :: datetime
  resp_new_interval :: int
  resp_ease_factor :: pyfloat
  resp_reps :: int

definition apply_outcome :: "bool \<Rightarrow> datetime \<Rightarrow> SRSReview \<Rightarrow> SRSReview" where
  \<comment> \<open>the schedule update of \<^verbatim>\<open>submit_answer\<close>, from \<^verbatim>\<open>if data.known:\<close> to the
      assignment of \<^verbatim>\<open>srs.next_review\<close>\<close>
  "apply_outcome is_known now srs =
     (let srs1 =
        (if is_known then
           (let new_interval =
                  (if reps srs = 0 then 1
                   else if reps srs = 1 then 6
                   else py_round (fmul (float_of_int (interval srs)) (ease_factor srs)));
                new_interval = min new_interval MAX_INTERVAL;
                new_ease = fadd (ease_factor srs) (float_lit (1 / 10))
            in srs\<lparr>interval := new_interval,
                   ease_factor := min new_ease (float_lit (5 / 2)),
                   reps := reps srs + 1\<rparr>)
         else
           (let new_interval = 1;
                new_ease = max (fsub (ease_factor srs) (float_lit (2 / 10))) MIN_EASE_FACTOR
            in srs\<lparr>interval := new_interval, ease_factor := new_ease\<rparr>))
      in srs1\<lparr>next_review := now + timedelta_days (interval srs1)\<rparr>)"

definition next_rowid :: "int list \<Rightarrow> int" where
  \<comment> \<open>the key the database gives an inserted row\<close>
  "next_rowid ids = fold max ids 0 + 1"

definition update_row :: "SRSReview \<Rightarrow> SRSReview list \<Rightarrow> SRSReview list" where
  \<comment> \<open>flushing a changed row: the row with its primary key is replaced\<close>
  "update_row r rows = map (\<lambda>s. if srs_id s = srs_id r then r else s) rows"

definition submit_answer :: "AnswerRequest \<Rightarrow> datetime \<Rightarrow> db \<Rightarrow> error + (db \<times> AnswerResponse)" where
  "submit_answer data now d =
     (case find (\<lambda>s. srs_vocab_id s = req_vocab_id data) (srs_rows d) of
        None \<Rightarrow> Inl NotFound
      | Some srs \<Rightarrow>
          (let study_log = \<lparr>log_id = next_rowid (map log_id (study_log_rows d)),
                            log_vocab_id = req_vocab_id data,
                            known = req_known data,
                            studied_at = now\<rparr>;
               srs = apply_outcome (req_known data) now srs
           in Inr (d\<lparr>srs_rows := update_row srs (srs_rows d),
                      study_log_rows := study_log_rows d @ [study_log]\<rparr>,
                   \<lparr>resp_vocab_id = srs_vocab_id srs,
                    resp_next_review = next_review srs,
                    resp_new_interval = interval srs,
                    resp_ease_factor = ease_factor srs,
                    resp_reps = reps srs\<rparr>)))"

definition reset_srs :: "int \<Rightarrow> datetime \<Rightarrow> db \<Rightarrow> error + (db \<times> string \<times> int)" where
  "reset_srs vocab_id now d =
     (case find (\<lambda>s. srs_vocab_id s = vocab_id) (srs_rows d) of
        None \<Rightarrow> Inl NotFound
      | Some srs \<Rightarrow>
          (let srs = srs\<lparr>interval := 0, ease_factor := float_lit (5 / 2),
                         next_review := now, reps := 0\<rparr>
           in Inr (d\<lparr>srs_rows := update_row srs (srs_rows d)\<rparr>,
                   (''SRS progress reset'', vocab_id))))"

record ReviewCard =
  card_id :: int
  card_vocab_id :: int
  card_kanji :: string
  card_reading :: "string option"
  card_meaning :: "string option"
  card_pos :: "string option"
  card_interval :: int
  card_ease_factor :: pyfloat
  card_reps :: int
  card_example_sentence :: "string option"
  card_example_meaning :: "string option"

record ReviewCardsResponse =
  resp_cards :: "ReviewCard list"
  resp_total :: nat

definition srs_join_vocabulary :: "db \<Rightarrow> (SRSReview \<times> Vocabulary) list" where
  \<comment> \<open>\<^verbatim>\<open>db.query(SRSReview).join(Vocabulary)\<close>: a schedule row paired with each
      vocabulary row its foreign key names\<close>
  "srs_join_vocabulary d =
     concat (map (\<lambda>s. map (Pair s) (filter (\<lambda>v. voc_id v = srs_vocab_id s) (vocabulary_rows d)))
                 (srs_rows d))"

definition due_cards_query :: "datetime \<Rightarrow> int \<Rightarrow> db \<Rightarrow> (SRSReview \<times> Vocabulary) list" where
  \<comment> \<open>the \<^verbatim>\<open>cards\<close> query: filter, order by \<^verbatim>\<open>next_review\<close> ascending, limit.
      Rows with the same \<^verbatim>\<open>next_review\<close> keep their storage order here; the database may
      order them otherwise, and nothing below depends on it.\<close>
  "due_cards_query now limit d =
     take (nat limit)
       (sort_key (\<lambda>(s, v). next_review s)
          (filter (\<lambda>(s, v). next_review s \<le> now) (srs_join_vocabulary d)))"

definition total_due_query :: "datetime \<Rightarrow> db \<Rightarrow> nat" where
  "total_due_query now d = length (filter (\<lambda>s. next_review s \<le> now) (srs_rows d))"

definition review_card :: "SRSReview \<times> Vocabulary \<Rightarrow> ReviewCard" where
  \<comment> \<open>\<^verbatim>\<open>ReviewCard(id=card.id, ..., kanji=card.vocabulary.kanji, ...)\<close>\<close>
  "review_card c = (case c of (srs, vocabulary) \<Rightarrow>
     \<lparr>card_id = srs_id srs, card_vocab_id = srs_vocab_id srs,
      card_kanji = kanji vocabulary, card_reading = reading vocabulary,
      card_meaning = meaning vocabulary, card_pos = pos vocabulary,
      card_interval = interval srs, card_ease_factor = ease_factor srs,
      card_reps = reps srs,
      card_example_sentence = example_sentence vocabulary,
      card_example_meaning = example_meaning vocabulary\<rparr>)"

definition get_review_cards :: "int option \<Rightarrow> datetime \<Rightarrow> db \<Rightarrow> error + ReviewCardsResponse" where
  "get_review_cards limit_param now d =
     (case query_int 20 1 100 limit_param of
        Inl e \<Rightarrow> Inl e
      | Inr limit \<Rightarrow>
          Inr \<lparr>resp_cards = map review_card (due_cards_query now limit d),
               resp_total = total_due_query now d\<rparr>)"

section \<open>Statistics endpoints\<close>

text \<open>
  The database is SQLite (\<^verbatim>\<open>sqlite:///...\<close> in \<^verbatim>\<open>database.py\<close>). SQLite's \<^verbatim>\<open>date()\<close>
  yields the text \<^verbatim>\<open>YYYY-MM-DD\<close>, and \<^verbatim>\<open>func.date(...)\<close> declares no result type, so a
  query row holds that text as a Python \<^verbatim>\<open>str\<close>. The endpoints compare these values
  with \<^verbatim>\<open>date\<close> objects, so both kinds of value are modelled: a \<^verbatim>\<open>str\<close> never equals a
  \<^verbatim>\<open>date\<close>, cannot be subtracted and has no \<^verbatim>\<open>strftime\<close>. \<^verbatim>\<open>studied_at\<close> is never null:
  \<^verbatim>\<open>submit_answer\<close> always sets it.
\<close>

datatype pyval = PyStr string | PyDate date

definition func_date :: "datetime \<Rightarrow> pyval" where
  \<comment> \<open>\<^verbatim>\<open>func.date(column)\<close> as a query row holds it\<close>
  "func_date t = PyStr (iso_date (date_of t))"

definition py_sub_days :: "pyval \<Rightarrow> int \<Rightarrow> error + pyval" where
  \<comment> \<open>\<^verbatim>\<open>x - timedelta(days=n)\<close>\<close>
  "py_sub_days x n = (case x of PyDate d \<Rightarrow> Inr (PyDate (d - n)) | PyStr s \<Rightarrow> Inl TypeError)"

definition py_sub :: "pyval \<Rightarrow> pyval \<Rightarrow> error + int" where
  \<comment> \<open>\<^verbatim>\<open>x - y\<close>: the days between two dates\<close>
  "py_sub x y = (case x of
       PyDate a \<Rightarrow> (case y of PyDate b \<Rightarrow> Inr (a - b) | PyStr t \<Rightarrow> Inl TypeError)
     | PyStr s \<Rightarrow> Inl TypeError)"

definition py_strftime :: "pyval \<Rightarrow> error + string" where
  \<comment> \<open>\<^verbatim>\<open>x.strftime("%Y-%m-%d")\<close>\<close>
  "py_strftime x = (case x of PyDate d \<Rightarrow> Inr (iso_date d) | PyStr s \<Rightarrow> Inl AttributeError)"

fun is_str :: "pyval \<Rightarrow> bool" where
  "is_str (PyStr s) = True"
| "is_str (PyDate d) = False"

fun str_of :: "pyval \<Rightarrow> string" where
  "str_of (PyStr s) = s"
| "str_of (PyDate d) = iso_date d"

fun day_of :: "pyval \<Rightarrow> date" where
  "day_of (PyDate d) = d"
| "day_of (PyStr s) = 0"

definition py_sorted_reverse :: "pyval list \<Rightarrow> error + pyval list" where
  \<comment> \<open>\<^verbatim>\<open>sorted(xs, reverse=True)\<close>: texts among themselves, dates among themselves; a
      \<^verbatim>\<open>str\<close> and a \<^verbatim>\<open>date\<close> cannot be ordered\<close>
  "py_sorted_reverse xs =
     (if list_all is_str xs then Inr (map PyStr (rev (sort (map str_of xs))))
      else if list_all (\<lambda>x. \<not> is_str x) xs then Inr (map PyDate (rev (sort (map day_of xs))))
      else Inl TypeError)"

definition dict_of :: "('k \<times> 'v) list \<Rightarrow> 'k \<Rightarrow> 'v option" where
  \<comment> \<open>a dict comprehension over query rows: the last row of a key wins\<close>
  "dict_of rows = map_of (rev rows)"

record DailyStats =
  ds_date :: string
  ds_total_reviews :: nat
  ds_correct :: nat
  ds_incorrect :: nat
  ds_accuracy :: pyfloat
  ds_new_words_learned :: nat

definition group_by :: "('a \<Rightarrow> 'k) \<Rightarrow> ('a list \<Rightarrow> 'v) \<Rightarrow> 'a list \<Rightarrow> ('k \<times> 'v) list" where
  \<comment> \<open>\<^verbatim>\<open>GROUP BY\<close>: one result row per key, holding the aggregate of the key's rows\<close>
  "group_by key agg rows =
     map (\<lambda>k. (k, agg (filter (\<lambda>r. key r = k) rows))) (remdups (map key rows))"

definition daily_stats_query :: "datetime \<Rightarrow> StudyLog list \<Rightarrow> (pyval \<times> nat \<times> nat \<times> nat) list" where
  \<comment> \<open>per study date from \<^verbatim>\<open>start_date\<close> on: the rows, the known ones, the others\<close>
  "daily_stats_query start_date logs =
     group_by (\<lambda>l. func_date (studied_at l))
       (\<lambda>g. (length g, length (filter known g), length (filter (\<lambda>l. \<not> known l) g)))
       (filter (\<lambda>l. start_date \<le> studied_at l) logs)"

definition first_success_subq :: "StudyLog list \<Rightarrow> (int \<times> datetime) list" where
  \<comment> \<open>per vocabulary id with a known answer: the earliest such answer, over the whole log\<close>
  "first_success_subq logs =
     group_by log_vocab_id (\<lambda>g. min_list (map studied_at g)) (filter known logs)"

definition new_words_query :: "datetime \<Rightarrow> (int \<times> datetime) list \<Rightarrow> (pyval \<times> nat) list" where
  \<comment> \<open>per date from \<^verbatim>\<open>start_date\<close> on: the number of first successes on it\<close>
  "new_words_query start_date subq =
     group_by (\<lambda>(v, first_success). func_date first_success) length
       (filter (\<lambda>(v, first_success). start_date \<le> first_success) subq)"

definition percent :: "nat \<Rightarrow> nat \<Rightarrow> pyfloat" where
  \<comment> \<open>\<^verbatim>\<open>(correct / total * 100) if total > 0 else 0\<close>\<close>
  "percent correct total_reviews =
     (if 0 < total_reviews
      then fmul (int_truediv (int correct) (int total_reviews)) (float_of_int 100) else 0)"

definition get_daily_stats :: "int option \<Rightarrow> datetime \<Rightarrow> db \<Rightarrow> error + DailyStats list" where
  "get_daily_stats days_param now d =
     (case query_int 7 1 30 days_param of
        Inl e \<Rightarrow> Inl e
      | Inr days \<Rightarrow>
          (let today = midnight now;
               start_date = today - timedelta_days (days - 1);
               stats_by_date = dict_of (daily_stats_query start_date (study_log_rows d));
               new_words_by_date =
                 dict_of (new_words_query start_date (first_success_subq (study_log_rows d)))
           in Inr (map (\<lambda>i.
                 (let date = today - timedelta_days i;
                      date_key = PyDate (date_of date);
                      stats = (case stats_by_date date_key of
                                 None \<Rightarrow> (0, 0, 0) | Some s \<Rightarrow> s);
                      new_learned = (case new_words_by_date date_key of
                                       None \<Rightarrow> 0 | Some c \<Rightarrow> c)
                  in (case stats of (total_reviews, correct, incorrect) \<Rightarrow>
                        \<lparr>ds_date = iso_date (date_of date),
                         ds_total_reviews = total_reviews,
                         ds_correct = correct,
                         ds_incorrect = incorrect,
                         ds_accuracy = py_round1 (percent correct total_reviews),
                         ds_new_words_learned = new_learned\<rparr>)))
                 (rev [0..days - 1]))))"

record AccuracyData =
  ad_dates :: "string list"
  ad_accuracy :: "pyfloat list"
  ad_total_reviews :: "nat list"

definition accuracy_stats_query :: "datetime \<Rightarrow> StudyLog list \<Rightarrow> (pyval \<times> nat \<times> nat) list" where
  "accuracy_stats_query start_date logs =
     group_by (\<lambda>l. func_date (studied_at l)) (\<lambda>g. (length g, length (filter known g)))
       (filter (\<lambda>l. start_date \<le> studied_at l) logs)"

definition get_accuracy_trend :: "int option \<Rightarrow> datetime \<Rightarrow> db \<Rightarrow> error + AccuracyData" where
  "get_accuracy_trend days_param now d =
     (case query_int 14 7 90 days_param of
        Inl e \<Rightarrow> Inl e
      | Inr days \<Rightarrow>
          (let today = midnight now;
               start_date = today - timedelta_days (days - 1);
               stats_by_date = dict_of (accuracy_stats_query start_date (study_log_rows d));
               per_day = map (\<lambda>i.
                 (let date = today - timedelta_days i;
                      date_key = PyDate (date_of date);
                      stats = (case stats_by_date date_key of None \<Rightarrow> (0, 0) | Some s \<Rightarrow> s)
                  in (case stats of (total_reviews, correct) \<Rightarrow>
                        (month_day_text (date_of date),
                         py_round1 (percent correct total_reviews), total_reviews))))
                 (rev [0..days - 1])
           in Inr \<lparr>ad_dates = map fst per_day,
                   ad_accuracy = map (fst \<circ> snd) per_day,
                   ad_total_reviews = map (snd \<circ> snd) per_day\<rparr>))"

definition study_dates_query :: "StudyLog list \<Rightarrow> pyval list" where
  \<comment> \<open>the distinct values of \<^verbatim>\<open>func.date(studied_at)\<close>, in descending order\<close>
  "study_dates_query logs =
     map PyStr (rev (sort (remdups (map (\<lambda>l. iso_date (date_of (studied_at l))) logs))))"

definition streak_match :: "pyval \<Rightarrow> pyval \<Rightarrow> error + bool" where
  \<comment> \<open>\<^verbatim>\<open>d == check_date or d == check_date - timedelta(days=1)\<close>\<close>
  "streak_match d check_date =
     (if d = check_date then Inr True
      else (case py_sub_days check_date 1 of Inl e \<Rightarrow> Inl e | Inr y \<Rightarrow> Inr (d = y)))"

fun current_streak_loop :: "pyval list \<Rightarrow> pyval \<Rightarrow> nat \<Rightarrow> error + nat" where
  "current_streak_loop [] check_date current_streak = Inr current_streak"
| "current_streak_loop (d # ds) check_date current_streak =
     (case streak_match d check_date of
        Inl e \<Rightarrow> Inl e
      | Inr False \<Rightarrow> Inr current_streak
      | Inr True \<Rightarrow>
          (case py_sub_days d 1 of
             Inl e \<Rightarrow> Inl e
           | Inr c \<Rightarrow> current_streak_loop ds c (current_streak + 1)))"

fun longest_streak_loop :: "pyval list \<Rightarrow> nat \<Rightarrow> nat \<Rightarrow> error + nat" where
  \<comment> \<open>the loop over \<^verbatim>\<open>range(1, len(sorted_dates))\<close>; the list starts at
      \<^verbatim>\<open>sorted_dates[i - 1]\<close>\<close>
  "longest_streak_loop (a # b # ds) longest_streak current_run =
     (case py_sub a b of
        Inl e \<Rightarrow> Inl e
      | Inr delta \<Rightarrow>
          (if delta = 1
           then longest_streak_loop (b # ds) (max longest_streak (current_run + 1)) (current_run + 1)
           else longest_streak_loop (b # ds) longest_streak 1))"
| "longest_streak_loop ds longest_streak current_run = Inr longest_streak"

record StreakInfo =
  current_streak :: nat
  longest_streak :: nat
  last_study_date :: "string option"

definition get_streak_info :: "datetime \<Rightarrow> db \<Rightarrow> error + StreakInfo" where
  "get_streak_info now d =
     (let today = midnight now
      in case study_dates_query (study_log_rows d) of
           [] \<Rightarrow> Inr \<lparr>current_streak = 0, longest_streak = 0, last_study_date = None\<rparr>
         | d0 # ds \<Rightarrow>
             (let dates = d0 # ds
              in case current_streak_loop dates (PyDate (date_of today)) 0 of
                   Inl e \<Rightarrow> Inl e
                 | Inr current \<Rightarrow>
                     (case py_sorted_reverse dates of
                        Inl e \<Rightarrow> Inl e
                      | Inr sorted_dates \<Rightarrow>
                          (case longest_streak_loop sorted_dates 1 1 of
                             Inl e \<Rightarrow> Inl e
                           | Inr longest \<Rightarrow>
                               (case py_strftime d0 of
                                  Inl e \<Rightarrow> Inl e
                                | Inr last_text \<Rightarrow>
                                    Inr \<lparr>current_streak = current,
                                         longest_streak = max longest current,
                                         last_study_date = Some last_text\<rparr>)))))"

section \<open>Example data\<close>

definition streak_log :: "StudyLog list" where
  \<comment> \<open>one entry on each of 2024-01-01, 2024-01-02, 2024-01-03 and 2024-01-05\<close>
  "streak_log =
     [\<lparr>log_id = 1, log_vocab_id = 7, known = True,
       studied_at = datetime_at (ymd2ord 2024 1 1) 32400000000\<rparr>,
      \<lparr>log_id = 2, log_vocab_id = 7, known = False,
       studied_at = datetime_at (ymd2ord 2024 1 2) 32400000000\<rparr>,
      \<lparr>log_id = 3, log_vocab_id = 7, known = True,
       studied_at = datetime_at (ymd2ord 2024 1 3) 32400000000\<rparr>,
      \<lparr>log_id = 4, log_vocab_id = 7, known = True,
       studied_at = datetime_at (ymd2ord 2024 1 5) 32400000000\<rparr>]"

definition today_log :: "StudyLog list" where
  \<comment> \<open>one entry, on 2024-01-05, a known one: the item's only correct answer\<close>
  "today_log =
     [\<lparr>log_id = 1, log_vocab_id = 7, known = True,
       studied_at = datetime_at (ymd2ord 2024 1 5) 32400000000\<rparr>]"

definition log_db :: "StudyLog list \<Rightarrow> db" where
  \<comment> \<open>a database holding a study log only\<close>
  "log_db logs = \<lparr>vocabulary_rows = [], srs_rows = [], study_log_rows = logs\<rparr>"

subsection \<open>The bounds of a schedule record, and a small database\<close>

definition within_bounds :: "SRSReview \<Rightarrow> bool" where
  \<comment> \<open>the bounds the data model states for a schedule record\<close>
  "within_bounds s = (float_lit (13 / 10) \<le> ease_factor s \<and> ease_factor s \<le> float_lit (5 / 2) \<and>
                      0 \<le> interval s \<and> interval s \<le> 365)"

definition demo_srs :: SRSReview where
  "demo_srs = \<lparr>srs_id = 1, srs_vocab_id = 7, interval = 10, ease_factor = 2,
               next_review = 0, reps = 3\<rparr>"

definition demo_db :: db where
  "demo_db = \<lparr>vocabulary_rows = [\<lparr>voc_id = 7, kanji = ''kanji'', reading = None, meaning = None,
                  pos = None, example_sentence = None, example_meaning = None\<rparr>],
              srs_rows = [demo_srs], study_log_rows = []\<rparr>"


section \<open>Rounding to a float is monotone\<close>

lemma round_half_even_of_int [simp]: "round_half_even (of_int n) = n"
  by (simp add: round_half_even_def)

lemma round_half_even_numeral [simp]: "round_half_even (numeral n) = numeral n"
  using round_half_even_of_int [of "numeral n"] by simp

lemma round_half_even_range:
  "\<lfloor>x\<rfloor> \<le> round_half_even x \<and> round_half_even x \<le> \<lfloor>x\<rfloor> + 1"
  by (simp add: round_half_even_def Let_def)

lemma round_half_even_mono:
  assumes "x \<le> y"
  shows "round_half_even x \<le> round_half_even y"
proof (cases "\<lfloor>x\<rfloor> = \<lfloor>y\<rfloor>")
  case True
  then have "x - of_int \<lfloor>x\<rfloor> \<le> y - of_int \<lfloor>y\<rfloor>"
    using assms by simp
  then show ?thesis
    using True by (auto simp: round_half_even_def Let_def)
next
  case False
  then have "\<lfloor>x\<rfloor> < \<lfloor>y\<rfloor>"
    using assms floor_mono [of x y] by linarith
  then show ?thesis
    using round_half_even_range [of x] round_half_even_range [of y] by linarith
qed

lemma round_half_even_minus: "round_half_even (- x) = - round_half_even x"
proof (cases "x \<in> \<int>")
  case True
  then obtain n where "x = of_int n" by (auto elim: Ints_cases)
  then have "- x = of_int (- n)" by simp
  then show ?thesis
    using \<open>x = of_int n\<close> round_half_even_of_int by metis
next
  case False
  then have fl: "\<lfloor>- x\<rfloor> = - \<lfloor>x\<rfloor> - 1"
    by (simp add: floor_minus ceiling_altdef) (metis Ints_of_int)
  have "x - of_int \<lfloor>x\<rfloor> \<noteq> 0"
    using False by (metis Ints_of_int eq_iff_diff_eq_0)
  then show ?thesis
    unfolding round_half_even_def Let_def fl
    by (auto simp: field_simps)
qed

lemma bitlen_powi_bounds:
  assumes "0 < p"
  shows "(2::rat) powi (bitlen p - 1) \<le> of_int p" "of_int p < (2::rat) powi bitlen p"
proof -
  have b: "2 ^ nat (bitlen p - 1) \<le> p" "p < 2 ^ nat (bitlen p)"
    using bitlen_bounds [OF assms] by auto
  have pos: "0 < bitlen p"
    using assms bitlen_nonneg [of p] bitlen_eq_zero_iff [of p] by (smt (verit))
  have "(2::rat) powi (bitlen p - 1) = of_int (2 ^ nat (bitlen p - 1))"
    using pos by (simp add: power_int_def)
  also have "\<dots> \<le> of_int p"
    using b(1) by (simp only: of_int_le_iff)
  finally show "(2::rat) powi (bitlen p - 1) \<le> of_int p" .
  have "(of_int p :: rat) < of_int (2 ^ nat (bitlen p))"
    using b(2) by (simp only: of_int_less_iff)
  also have "\<dots> = 2 powi bitlen p"
    using pos by (simp add: power_int_def)
  finally show "of_int p < (2::rat) powi bitlen p" .
qed

lemma ilog2_bounds:
  assumes "0 < x"
  shows "2 powi ilog2 x \<le> x" and "x < 2 powi (ilog2 x + 1)"
proof -
  obtain p q where pq: "quotient_of x = (p, q)"
    by (cases "quotient_of x")
  have q: "0 < q" using quotient_of_denom_pos [OF pq] .
  have x: "x = of_int p / of_int q" using quotient_of_div [OF pq] .
  have p: "0 < p"
    using assms q x by (simp add: zero_less_divide_iff)
  let ?k = "bitlen p - bitlen q"
  have lo: "2 powi (?k - 1) \<le> x"
  proof -
    have "(2::rat) powi (?k - 1) = 2 powi (bitlen p - 1) / 2 powi bitlen q"
      by (simp add: power_int_diff)
    also have "\<dots> \<le> of_int p / of_int q"
      using bitlen_powi_bounds [OF p] bitlen_powi_bounds [OF q] q p
      by (intro frac_le) auto
    finally show ?thesis using x by simp
  qed
  have hi: "x < 2 powi (?k + 1)"
  proof -
    have "of_int p / of_int q < (2::rat) powi bitlen p / 2 powi (bitlen q - 1)"
      using bitlen_powi_bounds [OF p] bitlen_powi_bounds [OF q] q p
      by (intro frac_less) auto
    also have "\<dots> = 2 powi (?k + 1)"
      by (simp add: power_int_diff power_int_add field_simps)
    finally show ?thesis using x by simp
  qed
  have e: "ilog2 x = (if 2 powi ?k \<le> x then ?k else ?k - 1)"
    by (simp add: ilog2_def pq Let_def)
  show "2 powi ilog2 x \<le> x"
    using lo by (simp add: e)
  show "x < 2 powi (ilog2 x + 1)"
    using hi by (auto simp: e not_le)
qed

lemma powi2_less_imp: "(2::rat) powi a < 2 powi b \<Longrightarrow> a < b"
  using power_int_increasing [of b a "2::rat"] by (cases "a < b") auto

lemma ilog2_mono:
  assumes "0 < x" "x \<le> y"
  shows "ilog2 x \<le> ilog2 y"
proof -
  have "(2::rat) powi ilog2 x < 2 powi (ilog2 y + 1)"
    using ilog2_bounds(1) [OF assms(1)] ilog2_bounds(2) [of y] assms by linarith
  then show ?thesis
    using powi2_less_imp by fastforce
qed

lemma fl_pos_eq:
  assumes "0 < x"
  shows "fl x = of_int (round_half_even (x / 2 powi (ilog2 x - 52))) * 2 powi (ilog2 x - 52)"
  using assms by (simp add: fl_def Let_def)

lemma powi2_split: "(2::rat) powi e = 2 ^ 52 * 2 powi (e - 52)"
proof -
  have "e = 52 + (e - 52)" by arith
  then have "(2::rat) powi e = 2 powi (52 + (e - 52))" by (rule arg_cong)
  also have "\<dots> = 2 powi 52 * 2 powi (e - 52)"
    by (rule power_int_add) simp
  finally show ?thesis by simp
qed

lemma fl_pos_bounds:
  assumes "0 < x"
  shows "2 powi ilog2 x \<le> fl x" and "fl x \<le> 2 powi (ilog2 x + 1)"
proof -
  let ?u = "(2::rat) powi (ilog2 x - 52)"
  have u: "0 < ?u" by simp
  have lo: "of_int (2 ^ 52) \<le> x / ?u"
    using ilog2_bounds(1) [OF assms] powi2_split [of "ilog2 x"] u
    by (simp add: le_divide_eq)
  have up: "(2::rat) powi (ilog2 x + 1) = 2 ^ 53 * ?u"
  proof -
    have "ilog2 x + 1 = 53 + (ilog2 x - 52)" by arith
    then have "(2::rat) powi (ilog2 x + 1) = 2 powi (53 + (ilog2 x - 52))" by (rule arg_cong)
    also have "\<dots> = 2 powi 53 * ?u"
      by (rule power_int_add) simp
    finally show ?thesis by simp
  qed
  have "x < 2 ^ 53 * ?u"
    using ilog2_bounds(2) [OF assms] by (simp only: up)
  then have hi: "x / ?u \<le> of_int (2 ^ 53)"
    using u by (simp add: divide_le_eq)
  have "2 ^ 52 \<le> round_half_even (x / ?u)"
    using round_half_even_mono [OF lo] by simp
  then have "(of_int (2 ^ 52) :: rat) \<le> of_int (round_half_even (x / ?u))"
    by (simp only: of_int_le_iff)
  then have "of_int (2 ^ 52) * ?u \<le> of_int (round_half_even (x / ?u)) * ?u"
    using u by (simp only: mult_le_cancel_right_pos)
  then show "2 powi ilog2 x \<le> fl x"
    using powi2_split [of "ilog2 x"] by (simp add: fl_pos_eq [OF assms])
  have "round_half_even (x / ?u) \<le> 2 ^ 53"
    using round_half_even_mono [OF hi] by simp
  then have "(of_int (round_half_even (x / ?u)) :: rat) \<le> of_int (2 ^ 53)"
    by (simp only: of_int_le_iff)
  then have "of_int (round_half_even (x / ?u)) * ?u \<le> of_int (2 ^ 53) * ?u"
    using u by (simp only: mult_le_cancel_right_pos)
  then show "fl x \<le> 2 powi (ilog2 x + 1)"
    by (simp add: fl_pos_eq [OF assms] up)
qed

lemma fl_mono_pos:
  assumes "0 < x" "x \<le> y"
  shows "fl x \<le> fl y"
proof (cases "ilog2 x = ilog2 y")
  case True
  let ?u = "(2::rat) powi (ilog2 y - 52)"
  have "x / ?u \<le> y / ?u"
    using assms by (simp add: divide_right_mono)
  then have "(of_int (round_half_even (x / ?u)) :: rat) \<le> of_int (round_half_even (y / ?u))"
    using round_half_even_mono by (simp only: of_int_le_iff)
  then have "of_int (round_half_even (x / ?u)) * ?u \<le> of_int (round_half_even (y / ?u)) * ?u"
    by (simp only: mult_le_cancel_right_pos zero_less_power_int zero_less_numeral)
  then show ?thesis
    using assms True by (simp add: fl_pos_eq)
next
  case False
  then have "ilog2 x + 1 \<le> ilog2 y"
    using ilog2_mono [OF assms] by simp
  then have "(2::rat) powi (ilog2 x + 1) \<le> 2 powi ilog2 y"
    by (intro power_int_increasing) auto
  then show ?thesis
    using fl_pos_bounds(2) [OF assms(1)] fl_pos_bounds(1) [of y] assms by linarith
qed

lemma fl_minus: "fl (- x) = - fl x"
  by (simp add: fl_def Let_def round_half_even_minus)

lemma fl_0 [simp]: "fl 0 = 0"
  by (simp add: fl_def)

lemma fl_pos: "0 < x \<Longrightarrow> 0 < fl x"
  using fl_pos_bounds(1) [of x] zero_less_power_int [of "2::rat" "ilog2 x"] by linarith

lemma fl_mono:
  assumes "x \<le> y"
  shows "fl x \<le> fl y"
proof -
  consider "0 < x" | "y < 0" | "x \<le> 0" "0 \<le> y" by linarith
  then show ?thesis
  proof cases
    case 1
    then show ?thesis using fl_mono_pos assms by simp
  next
    case 2
    then have "fl (- y) \<le> fl (- x)"
      using assms by (intro fl_mono_pos) auto
    then show ?thesis by (simp add: fl_minus)
  next
    case 3
    have "fl x \<le> 0"
      using 3(1) fl_pos [of "- x"] by (cases "x = 0") (auto simp: fl_minus)
    moreover have "0 \<le> fl y"
      using 3(2) fl_pos [of y] by (cases "y = 0") auto
    ultimately show ?thesis by simp
  qed
qed


section \<open>The schedule update\<close>

lemma find_update_row:
  assumes "find P rows = Some srs" and "srs_id (f srs) = srs_id srs"
  shows "find (\<lambda>s. srs_id s = srs_id srs) (update_row (f srs) rows) = Some (f srs)"
  using assms
proof (induction rows)
  case Nil
  then show ?case by simp
next
  case (Cons a rows)
  then show ?case
    by (auto simp: update_row_def split: if_splits)
qed


lemma apply_outcome_keeps_id [simp]:
  "srs_id (apply_outcome k now s) = srs_id s"
  "srs_vocab_id (apply_outcome k now s) = srs_vocab_id s"
  by (simp_all add: apply_outcome_def Let_def)

lemma submit_answer_found:
  assumes "find (\<lambda>s. srs_vocab_id s = req_vocab_id data) (srs_rows d) = Some srs"
  shows "submit_answer data now d =
     Inr (d\<lparr>srs_rows := update_row (apply_outcome (req_known data) now srs) (srs_rows d),
            study_log_rows := study_log_rows d @
              [\<lparr>log_id = next_rowid (map log_id (study_log_rows d)),
                log_vocab_id = req_vocab_id data, known = req_known data, studied_at = now\<rparr>]\<rparr>,
          \<lparr>resp_vocab_id = srs_vocab_id srs,
           resp_next_review = next_review (apply_outcome (req_known data) now srs),
           resp_new_interval = interval (apply_outcome (req_known data) now srs),
           resp_ease_factor = ease_factor (apply_outcome (req_known data) now srs),
           resp_reps = reps (apply_outcome (req_known data) now srs)\<rparr>)"
  using assms by (simp add: submit_answer_def Let_def)

lemma apply_outcome_True:
  "apply_outcome True now s =
     s\<lparr>interval := min (if reps s = 0 then 1 else if reps s = 1 then 6
                          else py_round (fmul (float_of_int (interval s)) (ease_factor s))) 365,
       ease_factor := min (fadd (ease_factor s) (float_lit (1 / 10))) (float_lit (5 / 2)),
       reps := reps s + 1,
       next_review := now + timedelta_days
          (min (if reps s = 0 then 1 else if reps s = 1 then 6
                else py_round (fmul (float_of_int (interval s)) (ease_factor s))) 365)\<rparr>"
  by (simp add: apply_outcome_def Let_def MAX_INTERVAL_def)

lemma apply_outcome_False:
  "apply_outcome False now s =
     s\<lparr>interval := 1,
       ease_factor := max (fsub (ease_factor s) (float_lit (2 / 10))) MIN_EASE_FACTOR,
       next_review := now + timedelta_days 1\<rparr>"
  by (simp add: apply_outcome_def Let_def)

text \<open>
  C2. When the item has a schedule record and the answer is correct, \<^verbatim>\<open>submit_answer\<close>
  returns (and stores in that record) the interval 1 for \<open>reps = 0\<close>, 6 for \<open>reps = 1\<close>
  and \<open>round(interval * ease_factor)\<close> otherwise, capped at 365; the ease factor
  \<open>min(ease_factor + 0.1, 2.5)\<close>; \<open>reps + 1\<close>; and the next review \<open>now\<close> plus the new
  interval in days. The rounding is Python's \<^verbatim>\<open>round\<close>, ties to even.
\<close>

theorem submit_answer_correct_schedule:
  assumes "find (\<lambda>s. srs_vocab_id s = req_vocab_id data) (srs_rows d) = Some srs"
    and "req_known data"
  shows "\<exists>d' r. submit_answer data now d = Inr (d', r)
     \<and> resp_new_interval r =
         min (if reps srs = 0 then 1 else if reps srs = 1 then 6
              else py_round (fmul (float_of_int (interval srs)) (ease_factor srs))) 365
     \<and> resp_new_interval r \<le> 365
     \<and> resp_ease_factor r = min (fadd (ease_factor srs) (float_lit (1 / 10))) (float_lit (5 / 2))
     \<and> resp_reps r = reps srs + 1
     \<and> resp_next_review r = now + timedelta_days (resp_new_interval r)
     \<and> find (\<lambda>s. srs_id s = srs_id srs) (srs_rows d') =
         Some (srs\<lparr>interval := resp_new_interval r, ease_factor := resp_ease_factor r,
                   next_review := resp_next_review r, reps := resp_reps r\<rparr>)"
proof -
  let ?s = "apply_outcome True now srs"
  have id: "srs_id ?s = srs_id srs" by simp
  have st: "find (\<lambda>s. srs_id s = srs_id srs) (update_row ?s (srs_rows d)) = Some ?s"
    using find_update_row [OF assms(1), of "apply_outcome True now"] id by simp
  show ?thesis
    using assms(2) st
    by (simp add: submit_answer_found [OF assms(1)] apply_outcome_True)
qed



lemma float_lit_consts:
  "float_lit (5 / 2) = 5 / 2"
  "fl (float_lit (13 / 10)) = float_lit (13 / 10)"
  "0 < float_lit (1 / 10)" "0 < float_lit (2 / 10)" "0 < float_lit (13 / 10)"
  "float_lit (13 / 10) \<le> 5 / 2"
  "fl (float_lit (5 / 2)) = float_lit (5 / 2)"
  by code_simp+

lemma fadd_lower: "c \<le> x \<Longrightarrow> 0 \<le> y \<Longrightarrow> fl c = c \<Longrightarrow> c \<le> fadd x y"
  using fl_mono [of c "x + y"] by (simp add: fadd_def)

lemma fsub_upper: "x \<le> c \<Longrightarrow> 0 \<le> y \<Longrightarrow> fl c = c \<Longrightarrow> fsub x y \<le> c"
  using fl_mono [of "x - y" c] by (simp add: fsub_def)

lemma py_round_product_nonneg:
  assumes "0 \<le> i" "0 \<le> e"
  shows "0 \<le> py_round (fmul (float_of_int i) e)"
proof -
  have "0 \<le> float_of_int i"
    using fl_mono [of 0 "of_int i"] assms(1) by (simp add: float_of_int_def)
  then have "0 \<le> float_of_int i * e"
    using assms(2) by simp
  then have "0 \<le> fmul (float_of_int i) e"
    using fl_mono [of 0 "float_of_int i * e"] by (simp add: fmul_def)
  then show ?thesis
    using round_half_even_mono [of 0 "fmul (float_of_int i) e"]
    by (simp add: py_round_def round_half_even_def)
qed

lemma apply_outcome_within_bounds:
  assumes "within_bounds s"
  shows "within_bounds (apply_outcome k now s)"
proof (cases k)
  case True
  have e: "float_lit (13 / 10) \<le> fadd (ease_factor s) (float_lit (1 / 10))"
    using assms float_lit_consts by (intro fadd_lower) (auto simp: within_bounds_def)
  have i: "0 \<le> py_round (fmul (float_of_int (interval s)) (ease_factor s))"
    using assms float_lit_consts by (intro py_round_product_nonneg) (auto simp: within_bounds_def)
  show ?thesis
    using e i float_lit_consts(1,6) True
    by (simp add: apply_outcome_True within_bounds_def)
next
  case False
  have e: "fsub (ease_factor s) (float_lit (2 / 10)) \<le> float_lit (5 / 2)"
    using assms float_lit_consts(4,7)
    by (intro fsub_upper) (auto simp: within_bounds_def)
  show ?thesis
    using e float_lit_consts(1,6) False
    by (simp add: apply_outcome_False within_bounds_def MIN_EASE_FACTOR_def)
qed

lemma reset_row_within_bounds:
  "within_bounds (s\<lparr>interval := 0, ease_factor := float_lit (5 / 2), next_review := now, reps := 0\<rparr>)"
  using float_lit_consts(1,6) by (simp add: within_bounds_def)

lemma update_row_all:
  "list_all P rows \<Longrightarrow> P r \<Longrightarrow> list_all P (update_row r rows)"
  by (induction rows) (auto simp: update_row_def)

lemma find_SomeD: "find P xs = Some x \<Longrightarrow> x \<in> set xs \<and> P x"
  by (induction xs) (auto split: if_splits)

lemma update_row_mem:
  "s' \<in> set (update_row r rows) \<Longrightarrow> s' \<in> set rows \<or> s' = r"
  by (auto simp: update_row_def)

lemma update_row_has:
  "s \<in> set rows \<Longrightarrow> srs_id r = srs_id s \<Longrightarrow> r \<in> set (update_row r rows)"
  by (force simp: update_row_def)

lemma reset_srs_found:
  assumes "find (\<lambda>s. srs_vocab_id s = v) (srs_rows d) = Some srs"
  shows "reset_srs v now d =
     Inr (d\<lparr>srs_rows := update_row
              (srs\<lparr>interval := 0, ease_factor := float_lit (5 / 2), next_review := now, reps := 0\<rparr>)
              (srs_rows d)\<rparr>, (''SRS progress reset'', v))"
  using assms by (simp add: reset_srs_def Let_def)

text \<open>
  C4. A schedule record with \<open>1.3 \<le> ease_factor \<le> 2.5\<close> and \<open>0 \<le> interval \<le> 365\<close> keeps
  these bounds under the schedule update, for either outcome; so a table whose records
  are all within the bounds stays so under \<^verbatim>\<open>submit_answer\<close>. \<^verbatim>\<open>reset_srs\<close> puts the
  record it resets within the bounds, whatever it held, and changes no other record.
\<close>

theorem schedule_bounds_invariant:
  "(within_bounds s \<longrightarrow> within_bounds (apply_outcome k now s))
   \<and> (\<forall>d1 r. list_all within_bounds (srs_rows d) \<and> submit_answer data now d = Inr (d1, r)
        \<longrightarrow> list_all within_bounds (srs_rows d1)
            \<and> float_lit (13 / 10) \<le> resp_ease_factor r \<and> resp_ease_factor r \<le> float_lit (5 / 2)
            \<and> 0 \<le> resp_new_interval r \<and> resp_new_interval r \<le> 365)
   \<and> (\<forall>d2 m. reset_srs v now d = Inr (d2, m)
        \<longrightarrow> (\<exists>s' \<in> set (srs_rows d2). srs_vocab_id s' = v \<and> within_bounds s')
            \<and> (\<forall>s' \<in> set (srs_rows d2). s' \<in> set (srs_rows d) \<or> within_bounds s'))"
proof (intro conjI impI allI)
  assume "within_bounds s"
  then show "within_bounds (apply_outcome k now s)"
    by (rule apply_outcome_within_bounds)
next
  fix d1 r
  assume a: "list_all within_bounds (srs_rows d) \<and> submit_answer data now d = Inr (d1, r)"
  then obtain srs where f: "find (\<lambda>s. srs_vocab_id s = req_vocab_id data) (srs_rows d) = Some srs"
    by (cases "find (\<lambda>s. srs_vocab_id s = req_vocab_id data) (srs_rows d)")
       (auto simp: submit_answer_def)
  let ?s = "apply_outcome (req_known data) now srs"
  have "within_bounds srs"
    using a find_SomeD [OF f] by (auto simp: list_all_iff)
  then have w: "within_bounds ?s"
    by (rule apply_outcome_within_bounds)
  have d1: "srs_rows d1 = update_row ?s (srs_rows d)" and
    r: "resp_ease_factor r = ease_factor ?s" "resp_new_interval r = interval ?s"
    using a submit_answer_found [OF f, of now] by auto
  show "list_all within_bounds (srs_rows d1)"
    using a w by (simp add: d1 update_row_all)
  show "float_lit (13 / 10) \<le> resp_ease_factor r" "resp_ease_factor r \<le> float_lit (5 / 2)"
    "0 \<le> resp_new_interval r" "resp_new_interval r \<le> 365"
    using w by (simp_all add: r within_bounds_def)
next
  fix d2 m
  assume a: "reset_srs v now d = Inr (d2, m)"
  then obtain srs where f: "find (\<lambda>s. srs_vocab_id s = v) (srs_rows d) = Some srs"
    by (cases "find (\<lambda>s. srs_vocab_id s = v) (srs_rows d)") (auto simp: reset_srs_def)
  let ?s = "srs\<lparr>interval := 0, ease_factor := float_lit (5 / 2), next_review := now, reps := 0\<rparr>"
  have d2: "srs_rows d2 = update_row ?s (srs_rows d)"
    using a reset_srs_found [OF f, of now] by auto
  have "?s \<in> set (srs_rows d2)"
    using find_SomeD [OF f] update_row_has [of srs "srs_rows d" ?s] by (simp add: d2)
  moreover have "srs_vocab_id ?s = v"
    using find_SomeD [OF f] by simp
  ultimately show "\<exists>s' \<in> set (srs_rows d2). srs_vocab_id s' = v \<and> within_bounds s'"
    using reset_row_within_bounds by blast
  show "\<forall>s' \<in> set (srs_rows d2). s' \<in> set (srs_rows d) \<or> within_bounds s'"
    using update_row_mem [of _ ?s "srs_rows d"] reset_row_within_bounds by (auto simp: d2)
qed

lemma update_row_length [simp]: "length (update_row r rows) = length rows"
  by (simp add: update_row_def)






section \<open>The schedule update on a small database\<close>

lemma demo_find:
  "find (\<lambda>s. srs_vocab_id s = req_vocab_id \<lparr>req_vocab_id = 7, req_known = k\<rparr>) (srs_rows demo_db)
     = Some demo_srs"
  by (simp add: demo_db_def demo_srs_def)

lemma demo_round: "py_round (fmul (float_of_int 10) 2) = 20"
  by code_simp

lemma demo_within_bounds: "within_bounds demo_srs"
  by code_simp

theorem submit_answer_correct_schedule_witness:
  "\<exists>d' r. submit_answer \<lparr>req_vocab_id = 7, req_known = True\<rparr> 0 demo_db = Inr (d', r)
     \<and> resp_new_interval r = 20 \<and> resp_reps r = 4 \<and> resp_next_review r = timedelta_days 20"
proof -
  have k: "req_known \<lparr>req_vocab_id = 7, req_known = True\<rparr>" by simp
  show ?thesis
    using submit_answer_correct_schedule [OF demo_find k, of 0] demo_round
    by (auto simp: demo_srs_def)
qed


theorem schedule_bounds_invariant_witness:
  "within_bounds demo_srs \<and> within_bounds (apply_outcome True 0 demo_srs)
   \<and> within_bounds (apply_outcome False 0 demo_srs)
   \<and> (\<exists>d1 r. submit_answer \<lparr>req_vocab_id = 7, req_known = True\<rparr> 0 demo_db = Inr (d1, r)
         \<and> list_all within_bounds (srs_rows d1))
   \<and> (\<exists>d2 m. reset_srs 7 0 demo_db = Inr (d2, m) \<and> list_all within_bounds (srs_rows d2))"
proof -
  have a: "list_all within_bounds (srs_rows demo_db)"
    using demo_within_bounds by (simp add: demo_db_def)
  obtain d1 r where s: "submit_answer \<lparr>req_vocab_id = 7, req_known = True\<rparr> 0 demo_db = Inr (d1, r)"
    using submit_answer_found [OF demo_find] by blast
  have f: "find (\<lambda>s. srs_vocab_id s = 7) (srs_rows demo_db) = Some demo_srs"
    by (simp add: demo_db_def demo_srs_def)
  obtain d2 m where t: "reset_srs 7 0 demo_db = Inr (d2, m)"
    using reset_srs_found [OF f] by blast
  show ?thesis
    using schedule_bounds_invariant [of demo_srs True 0 demo_db "\<lparr>req_vocab_id = 7, req_known = True\<rparr>" 7]
      schedule_bounds_invariant [of demo_srs False 0 demo_db "\<lparr>req_vocab_id = 7, req_known = True\<rparr>" 7]
      demo_within_bounds a s t
    by (auto simp: list_all_iff)
qed



section \<open>Query parameters\<close>

text \<open>
  C10. The query parameters are range-checked before the body runs: \<^verbatim>\<open>get_daily_stats\<close>
  rejects exactly the \<open>days\<close> outside 1..30, \<^verbatim>\<open>get_accuracy_trend\<close> exactly those
  outside 7..90 and \<^verbatim>\<open>get_review_cards\<close> exactly the \<open>limit\<close> outside 1..100; an absent
  parameter takes its default and is never rejected.
\<close>

theorem query_parameters_range_checked:
  "(get_daily_stats (Some days) now d = Inl InvalidInput \<longleftrightarrow> \<not> (1 \<le> days \<and> days \<le> 30))
   \<and> (get_accuracy_trend (Some days) now d = Inl InvalidInput \<longleftrightarrow> \<not> (7 \<le> days \<and> days \<le> 90))
   \<and> (get_review_cards (Some limit) now d = Inl InvalidInput \<longleftrightarrow> \<not> (1 \<le> limit \<and> limit \<le> 100))
   \<and> (\<forall>e. get_daily_stats None now d \<noteq> Inl e \<and> get_accuracy_trend None now d \<noteq> Inl e
            \<and> get_review_cards None now d \<noteq> Inl e)"
  by (auto simp: get_daily_stats_def get_accuracy_trend_def get_review_cards_def query_int_def Let_def)

theorem query_parameters_range_checked_witness:
  "get_daily_stats (Some 31) 0 demo_db = Inl InvalidInput
   \<and> get_daily_stats (Some 0) 0 demo_db = Inl InvalidInput
   \<and> get_daily_stats (Some 45) 0 demo_db = Inl InvalidInput
   \<and> get_daily_stats (Some 30) 0 demo_db \<noteq> Inl InvalidInput
   \<and> get_accuracy_trend (Some 1) 0 demo_db = Inl InvalidInput
   \<and> get_accuracy_trend (Some 6) 0 demo_db = Inl InvalidInput
   \<and> get_accuracy_trend (Some 45) 0 demo_db \<noteq> Inl InvalidInput
   \<and> get_accuracy_trend (Some 91) 0 demo_db = Inl InvalidInput
   \<and> get_review_cards (Some 101) 0 demo_db = Inl InvalidInput
   \<and> get_review_cards (Some 100) 0 demo_db \<noteq> Inl InvalidInput"
  using query_parameters_range_checked [of 31 0 demo_db 101]
    query_parameters_range_checked [of 0 0 demo_db 100]
    query_parameters_range_checked [of 30 0 demo_db 100]
    query_parameters_range_checked [of 6 0 demo_db 100]
    query_parameters_range_checked [of 45 0 demo_db 100]
    query_parameters_range_checked [of 91 0 demo_db 100]
    query_parameters_range_checked [of 1 0 demo_db 100]
  by simp

section \<open>The due queue\<close>

lemma filter_key_single:
  "distinct (map f xs) \<Longrightarrow> y \<in> set (map f xs) \<Longrightarrow> \<exists>x. filter (\<lambda>v. f v = y) xs = [x]"
proof (induction xs)
  case Nil
  then show ?case by simp
next
  case (Cons a xs)
  show ?case
  proof (cases "f a = y")
    case True
    have "\<forall>x \<in> set xs. f x \<noteq> f a"
      using Cons.prems(1) by (auto simp: image_iff)
    then have "filter (\<lambda>v. f v = y) xs = []"
      using True by (simp add: filter_empty_conv)
    then show ?thesis using True by simp
  next
    case False
    then show ?thesis using Cons by auto
  qed
qed

lemma concat_pairs_fst:
  "\<forall>s \<in> set rows. \<exists>x. g s = [x] \<Longrightarrow> map fst (concat (map (\<lambda>s. map (Pair s) (g s)) rows)) = rows"
  by (induction rows) auto

lemma join_fst:
  assumes "db_wf d"
  shows "map fst (srs_join_vocabulary d) = srs_rows d"
  unfolding srs_join_vocabulary_def
proof (rule concat_pairs_fst, rule ballI)
  fix s assume "s \<in> set (srs_rows d)"
  then have "srs_vocab_id s \<in> set (map voc_id (vocabulary_rows d))"
    using assms by (simp add: db_wf_def list_all_iff)
  moreover have "distinct (map voc_id (vocabulary_rows d))"
    using assms by (simp add: db_wf_def)
  ultimately show "\<exists>x. filter (\<lambda>v. voc_id v = srs_vocab_id s) (vocabulary_rows d) = [x]"
    by (rule filter_key_single [rotated])
qed

lemma due_join_fst:
  assumes "db_wf d"
  shows "map fst (filter (\<lambda>(s, v). next_review s \<le> now) (srs_join_vocabulary d))
           = filter (\<lambda>s. next_review s \<le> now) (srs_rows d)"
proof -
  have "map fst (filter (\<lambda>(s, v). next_review s \<le> now) ps)
          = filter (\<lambda>s. next_review s \<le> now) (map fst ps)" for ps :: "(SRSReview \<times> Vocabulary) list"
    by (induction ps) auto
  then show ?thesis
    by (simp only: join_fst [OF assms])
qed

lemma review_card_fields:
  "map (\<lambda>c. (card_id c, card_vocab_id c, card_interval c, card_ease_factor c, card_reps c))
       (map review_card ps)
     = map (\<lambda>s. (srs_id s, srs_vocab_id s, interval s, ease_factor s, reps s)) (map fst ps)"
  by (induction ps) (auto simp: review_card_def)

lemma sorted_prefix_le:
  assumes "sorted (map k ys)" "c \<in> set (take n ys)" "s \<in> set (drop n ys)"
  shows "k c \<le> k s"
proof -
  have "sorted (map k (take n ys) @ map k (drop n ys))"
    using assms(1) by (simp flip: map_append)
  then show ?thesis
    using assms(2,3) by (auto simp: sorted_append)
qed

text \<open>
  C5. On a database that satisfies the schema's key constraints, and for a limit that
  the endpoint accepts, \<^verbatim>\<open>get_review_cards\<close> returns cards for schedule records that are all
  due (\<open>next_review \<le> now\<close>), in ascending order of \<open>next_review\<close>, as many as the limit
  allows, every record left out being due no earlier than every record returned; so all
  the due records are returned when the limit allows. The total is the number of all due
  records, whatever the limit.
\<close>

theorem get_review_cards_due:
  assumes "db_wf d" and "1 \<le> limit" and "limit \<le> 100"
  shows "\<exists>r rows. get_review_cards (Some limit) now d = Inr r
     \<and> map (\<lambda>c. (card_id c, card_vocab_id c, card_interval c, card_ease_factor c, card_reps c))
            (resp_cards r)
         = map (\<lambda>s. (srs_id s, srs_vocab_id s, interval s, ease_factor s, reps s)) rows
     \<and> mset rows \<subseteq># mset (filter (\<lambda>s. next_review s \<le> now) (srs_rows d))
     \<and> (\<forall>s \<in> set rows. s \<in> set (srs_rows d) \<and> next_review s \<le> now)
     \<and> sorted (map next_review rows)
     \<and> length rows = min (nat limit) (length (filter (\<lambda>s. next_review s \<le> now) (srs_rows d)))
     \<and> (\<forall>c \<in> set rows.
           \<forall>s \<in># mset (filter (\<lambda>s. next_review s \<le> now) (srs_rows d)) - mset rows.
             next_review c \<le> next_review s)
     \<and> (length (filter (\<lambda>s. next_review s \<le> now) (srs_rows d)) \<le> nat limit
          \<longrightarrow> mset rows = mset (filter (\<lambda>s. next_review s \<le> now) (srs_rows d)))
     \<and> resp_total r = length (filter (\<lambda>s. next_review s \<le> now) (srs_rows d))"
proof -
  let ?due = "filter (\<lambda>s. next_review s \<le> now) (srs_rows d)"
  let ?k = "\<lambda>(s, v). next_review s"
  let ?xs = "filter (\<lambda>(s, v). next_review s \<le> now) (srs_join_vocabulary d)"
  let ?ys = "sort_key ?k ?xs"
  let ?n = "nat limit"
  let ?rows = "map fst (take ?n ?ys)"
  let ?r = "\<lparr>resp_cards = map review_card (take ?n ?ys), resp_total = total_due_query now d\<rparr>"
  have k: "?k = next_review \<circ> fst"
    by (auto simp: fun_eq_iff)
  have r: "get_review_cards (Some limit) now d = Inr ?r"
    using assms(2,3) by (simp add: get_review_cards_def query_int_def due_cards_query_def)
  have ms: "mset (map fst ?ys) = mset ?due"
    using due_join_fst [OF assms(1), of now] by (metis mset_map mset_sort)
  have split: "mset ?rows + mset (map fst (drop ?n ?ys)) = mset ?due"
    unfolding ms [symmetric] by (metis append_take_drop_id map_append mset_append)
  have sub: "mset ?rows \<subseteq># mset ?due"
    using split by (metis mset_subset_eq_add_left)
  have rest: "mset ?due - mset ?rows = mset (map fst (drop ?n ?ys))"
    using split by (metis add_diff_cancel_left')
  have srt: "sorted (map ?k ?ys)"
    by (rule sorted_sort_key)
  have srt_rows: "sorted (map next_review ?rows)"
  proof -
    have "map next_review ?rows = take ?n (map ?k ?ys)"
      by (simp add: k take_map)
    then show ?thesis
      using srt sorted_wrt_take by (metis)
  qed
  have len: "length ?rows = min ?n (length ?due)"
  proof -
    have "length ?ys = length ?due"
      using ms by (metis length_map size_mset)
    then show ?thesis by simp
  qed
  have mem: "\<forall>s \<in> set ?rows. s \<in> set (srs_rows d) \<and> next_review s \<le> now"
  proof
    fix s assume "s \<in> set ?rows"
    then have "s \<in># mset ?due"
      using sub by (metis mset_subset_eqD set_mset_mset)
    then show "s \<in> set (srs_rows d) \<and> next_review s \<le> now" by simp
  qed
  have least: "\<forall>c \<in> set ?rows. \<forall>s \<in># mset ?due - mset ?rows. next_review c \<le> next_review s"
  proof (intro ballI)
    fix c s assume c: "c \<in> set ?rows" and s: "s \<in># mset ?due - mset ?rows"
    obtain pc where pc: "pc \<in> set (take ?n ?ys)" "c = fst pc"
      using c by auto
    obtain ps where ps: "ps \<in> set (drop ?n ?ys)" "s = fst ps"
      using s unfolding rest by auto
    have "?k pc \<le> ?k ps"
      using sorted_prefix_le [OF srt pc(1) ps(1)] .
    then show "next_review c \<le> next_review s"
      using pc(2) ps(2) by (simp add: case_prod_beta)
  qed
  have cards: "map (\<lambda>c. (card_id c, card_vocab_id c, card_interval c, card_ease_factor c, card_reps c))
            (resp_cards ?r)
         = map (\<lambda>s. (srs_id s, srs_vocab_id s, interval s, ease_factor s, reps s)) ?rows"
  proof -
    have "resp_cards ?r = map review_card (take ?n ?ys)" by simp
    then show ?thesis by (simp only: review_card_fields)
  qed
  have tot: "resp_total ?r = length ?due"
    by (simp add: total_due_query_def)
  have full: "length ?due \<le> ?n \<longrightarrow> mset ?rows = mset ?due"
  proof
    assume "length ?due \<le> ?n"
    moreover have "length ?ys = length ?due"
      using ms by (metis length_map size_mset)
    ultimately have "drop ?n ?ys = []" by simp
    then show "mset ?rows = mset ?due"
      using split by simp
  qed
  show ?thesis
    using r cards sub mem srt_rows len least full tot by blast
qed

section \<open>The due queue on a small database\<close>

lemma demo_db_wf: "db_wf demo_db"
  by (simp add: db_wf_def demo_db_def demo_srs_def)

theorem get_review_cards_due_witness:
  "db_wf demo_db \<and> (1::int) \<le> 20 \<and> (20::int) \<le> 100
   \<and> (\<exists>r (rows :: SRSReview list). get_review_cards (Some 20) 0 demo_db = Inr r
         \<and> map (\<lambda>c. (card_id c, card_vocab_id c, card_interval c, card_ease_factor c, card_reps c))
              (resp_cards r)
            = map (\<lambda>s. (srs_id s, srs_vocab_id s, interval s, ease_factor s, reps s)) rows
         \<and> length rows = 1 \<and> sorted (map next_review rows) \<and> resp_total r = 1)"
proof -
  have a: "(1::int) \<le> 20" "(20::int) \<le> 100" by simp_all
  have due: "filter (\<lambda>s. next_review s \<le> 0) (srs_rows demo_db) = [demo_srs]"
    by (simp add: demo_db_def demo_srs_def)
  obtain r and rows :: "SRSReview list"
    where r: "get_review_cards (Some 20) 0 demo_db = Inr r"
    and c: "map (\<lambda>c. (card_id c, card_vocab_id c, card_interval c, card_ease_factor c, card_reps c))
              (resp_cards r)
            = map (\<lambda>s. (srs_id s, srs_vocab_id s, interval s, ease_factor s, reps s)) rows"
    and l: "length rows = min (nat 20) (length (filter (\<lambda>s. next_review s \<le> 0) (srs_rows demo_db)))"
    and s: "sorted (map next_review rows)"
    and t: "resp_total r = length (filter (\<lambda>s. next_review s \<le> 0) (srs_rows demo_db))"
    using get_review_cards_due [OF demo_db_wf a, of 0] by blast
  have "length rows = 1" "resp_total r = 1"
    using l t unfolding due by simp_all
  then show ?thesis
    using demo_db_wf a r c s by blast
qed

section \<open>Daily statistics\<close>

lemma usec_per_day_pos: "0 < usec_per_day"
  by (simp add: usec_per_day_def)

lemma date_of_shift: "date_of (midnight now - timedelta_days i) = date_of now - i"
proof -
  have "midnight now - timedelta_days i = (date_of now - i) * usec_per_day"
    by (simp add: midnight_def timedelta_days_def algebra_simps)
  then show ?thesis
    using usec_per_day_pos by (simp add: date_of_def)
qed

lemma dict_of_miss:
  assumes "\<forall>r \<in> set rows. key r \<noteq> k"
  shows "dict_of (group_by key agg rows) k = None"
proof -
  have "k \<notin> fst ` set (rev (group_by key agg rows))"
    using assms by (auto simp: group_by_def)
  then show ?thesis
    unfolding dict_of_def by (simp add: map_of_eq_None_iff)
qed

lemma stats_by_date_miss:
  "dict_of (daily_stats_query start_date logs) (PyDate k) = None"
  unfolding daily_stats_query_def by (rule dict_of_miss) (simp add: func_date_def)

lemma new_words_by_date_miss:
  "dict_of (new_words_query start_date subq) (PyDate k) = None"
  unfolding new_words_query_def by (rule dict_of_miss) (auto simp: func_date_def)

lemma accuracy_zero: "py_round1 (percent 0 0) = 0"
  by (simp add: py_round1_def percent_def fl_def round_half_even_def)

lemma upto_rev_map: "map (\<lambda>i. a - i) (rev [0..n]) = [a - n..a]"
proof (rule nth_equalityI)
  show "length (map (\<lambda>i. a - i) (rev [0..n])) = length [a - n..a]"
    by simp
next
  fix j assume "j < length (map (\<lambda>i. a - i) (rev [0..n]))"
  then have j: "int j < n + 1" by simp
  then have "rev [0..n] ! j = n - int j"
    by (simp add: rev_nth)
  then show "map (\<lambda>i. a - i) (rev [0..n]) ! j = [a - n..a] ! j"
    using j by simp
qed

text \<open>
  C6. For \<open>days\<close> in 1..30, \<^verbatim>\<open>get_daily_stats\<close> returns one row for each of the last
  \<open>days\<close> calendar days, oldest first, and every row reports 0 reviews, 0 correct,
  0 incorrect, accuracy 0 and 0 new words, whatever the log holds: the rows of both
  queries are keyed by the text that \<^verbatim>\<open>func.date\<close> yields and are looked up by
  \<^verbatim>\<open>date\<close> objects, so no lookup finds its key. In particular the per-item first
  successes are computed and then never reported.
\<close>

theorem get_daily_stats_all_zero:
  assumes "1 \<le> days" and "days \<le> 30"
  shows "get_daily_stats (Some days) now d =
           Inr (map (\<lambda>k. \<lparr>ds_date = iso_date k, ds_total_reviews = 0, ds_correct = 0,
                            ds_incorrect = 0, ds_accuracy = 0, ds_new_words_learned = 0\<rparr>)
                    [date_of now - (days - 1)..date_of now])"
proof -
  let ?row = "\<lambda>k. \<lparr>ds_date = iso_date k, ds_total_reviews = 0, ds_correct = 0,
                     ds_incorrect = 0, ds_accuracy = 0, ds_new_words_learned = 0\<rparr>"
  have q: "query_int 7 1 30 (Some days) = Inr days"
    using assms by (simp add: query_int_def)
  have "get_daily_stats (Some days) now d =
          Inr (map (\<lambda>i. ?row (date_of now - i)) (rev [0..days - 1]))"
    unfolding get_daily_stats_def q
    by (simp only: Let_def stats_by_date_miss new_words_by_date_miss date_of_shift
        option.case prod.case sum.case accuracy_zero)
  also have "map (\<lambda>i. ?row (date_of now - i)) (rev [0..days - 1])
               = map ?row (map (\<lambda>i. date_of now - i) (rev [0..days - 1]))"
    by (simp add: comp_def)
  also have "\<dots> = map ?row [date_of now - (days - 1)..date_of now]"
    by (simp only: upto_rev_map)
  finally show ?thesis .
qed

section \<open>Streaks\<close>

lemma current_streak_loop_str:
  "current_streak_loop (PyStr a # ds) (PyDate c) n = Inr n"
  by (simp add: streak_match_def py_sub_days_def)

lemma py_sorted_reverse_strs:
  "py_sorted_reverse (map PyStr ss) = Inr (map PyStr (rev (sort ss)))"
proof -
  have "list_all is_str (map PyStr ss)"
    by (simp add: list_all_iff)
  moreover have "map str_of (map PyStr ss) = ss"
    by (simp add: comp_def)
  ultimately show ?thesis
    by (simp only: py_sorted_reverse_def if_True)
qed

lemma longest_streak_loop_strs:
  "longest_streak_loop (PyStr a # PyStr b # ds) l r = Inl TypeError"
  "longest_streak_loop [PyStr a] l r = Inr l"
  by (simp_all add: py_sub_def)

lemma get_streak_info_one:
  assumes "study_dates_query (study_log_rows d) = [PyStr a]"
  shows "get_streak_info now d = Inl AttributeError"
proof -
  have "py_sorted_reverse [PyStr a] = Inr [PyStr a]"
    using py_sorted_reverse_strs [of "[a]"] by simp
  then show ?thesis
    by (simp add: get_streak_info_def assms current_streak_loop_str longest_streak_loop_strs
          py_strftime_def del: current_streak_loop.simps longest_streak_loop.simps)
qed

lemma get_streak_info_many:
  assumes "study_dates_query (study_log_rows d) = map PyStr ss" "2 \<le> length ss"
  shows "get_streak_info now d = Inl TypeError"
proof -
  obtain a b rest where ss: "ss = a # b # rest"
    using assms(2) by (cases ss; cases "tl ss") auto
  have "length (rev (sort ss)) = length ss" by simp
  then obtain x y zs where srt: "rev (sort ss) = x # y # zs"
    using assms(2) by (cases "rev (sort ss)"; cases "tl (rev (sort ss))") auto
  have p: "py_sorted_reverse (PyStr a # PyStr b # map PyStr rest)
             = Inr (PyStr x # PyStr y # map PyStr zs)"
    using py_sorted_reverse_strs [of ss] srt ss by simp
  have q: "study_dates_query (study_log_rows d) = PyStr a # PyStr b # map PyStr rest"
    using assms(1) ss by simp
  show ?thesis
    by (simp add: get_streak_info_def q p current_streak_loop_str longest_streak_loop_strs
          del: current_streak_loop.simps longest_streak_loop.simps)
qed

text \<open>
  C9. \<^verbatim>\<open>get_streak_info\<close> returns a result only on the empty log: streaks 0 and 0 and
  no last date. On every other log it raises: AttributeError when the log has one
  study date (\<^verbatim>\<open>strftime\<close> on a text), TypeError when it has more (the difference of two
  texts). So no result with a longest streak below the current one is returned, and
  for a log with entries no result is returned at all.
\<close>

theorem get_streak_info_raises:
  "(study_log_rows d = [] \<longrightarrow>
      get_streak_info now d = Inr \<lparr>current_streak = 0, longest_streak = 0, last_study_date = None\<rparr>)
   \<and> (study_log_rows d \<noteq> [] \<longrightarrow>
        get_streak_info now d =
          (if length (study_dates_query (study_log_rows d)) = 1 then Inl AttributeError
           else Inl TypeError))
   \<and> (\<forall>r. get_streak_info now d = Inr r \<longrightarrow>
          study_log_rows d = [] \<and> current_streak r = 0 \<and> longest_streak r = 0)"
proof -
  let ?ss = "rev (sort (remdups (map (\<lambda>l. iso_date (date_of (studied_at l))) (study_log_rows d))))"
  have q: "study_dates_query (study_log_rows d) = map PyStr ?ss"
    by (simp add: study_dates_query_def)
  have empty: "get_streak_info now d =
      Inr \<lparr>current_streak = 0, longest_streak = 0, last_study_date = None\<rparr>"
    if "study_log_rows d = []"
    using that by (simp add: get_streak_info_def study_dates_query_def)
  have raises: "get_streak_info now d =
          (if length (study_dates_query (study_log_rows d)) = 1 then Inl AttributeError
           else Inl TypeError)"
    if ne: "study_log_rows d \<noteq> []"
  proof -
    have "remdups (map (\<lambda>l. iso_date (date_of (studied_at l))) (study_log_rows d)) \<noteq> []"
      using ne by simp
    then have pos: "1 \<le> length ?ss"
      by (simp add: Suc_le_eq)
    show ?thesis
    proof (cases "length ?ss = 1")
      case True
      then obtain a where "?ss = [a]"
        by (cases ?ss) auto
      then have "study_dates_query (study_log_rows d) = [PyStr a]"
        using q by simp
      then show ?thesis
        using get_streak_info_one [of d a now] by simp
    next
      case False
      then have "2 \<le> length ?ss"
        using pos by linarith
      then have "get_streak_info now d = Inl TypeError"
        using get_streak_info_many [OF q] by simp
      moreover have "length (study_dates_query (study_log_rows d)) \<noteq> 1"
        using False unfolding q by simp
      ultimately show ?thesis
        by simp
    qed
  qed
  have only: "study_log_rows d = [] \<and> current_streak r = 0 \<and> longest_streak r = 0"
    if r: "get_streak_info now d = Inr r" for r
  proof (cases "study_log_rows d = []")
    case True
    then show ?thesis using empty r by auto
  next
    case False
    have "get_streak_info now d = Inl AttributeError \<or> get_streak_info now d = Inl TypeError"
      using raises [OF False] by (simp split: if_splits)
    then show ?thesis using r by auto
  qed
  show ?thesis
    using empty raises only by blast
qed

section \<open>The statistics endpoints on example logs\<close>

lemma today_texts:
  "date_of (datetime_at (ymd2ord 2024 1 5) 72000000000) = ymd2ord 2024 1 5"
  "map (\<lambda>k. \<lparr>ds_date = iso_date k, ds_total_reviews = 0, ds_correct = 0,
               ds_incorrect = 0, ds_accuracy = 0, ds_new_words_learned = 0\<rparr>)
       [ymd2ord 2024 1 5 - (1 - 1)..ymd2ord 2024 1 5]
     = [\<lparr>ds_date = ''2024-01-05'', ds_total_reviews = 0, ds_correct = 0,
          ds_incorrect = 0, ds_accuracy = 0, ds_new_words_learned = 0\<rparr>]"
  by code_simp+

theorem get_daily_stats_all_zero_witness:
  "(1::int) \<le> 1 \<and> (1::int) \<le> 30
   \<and> get_daily_stats (Some 1) (datetime_at (ymd2ord 2024 1 5) 72000000000) (log_db today_log)
       = Inr [\<lparr>ds_date = ''2024-01-05'', ds_total_reviews = 0, ds_correct = 0,
                ds_incorrect = 0, ds_accuracy = 0, ds_new_words_learned = 0\<rparr>]"
proof -
  have a: "(1::int) \<le> 1" "(1::int) \<le> 30" by simp_all
  have "get_daily_stats (Some 1) (datetime_at (ymd2ord 2024 1 5) 72000000000) (log_db today_log)
       = Inr [\<lparr>ds_date = ''2024-01-05'', ds_total_reviews = 0, ds_correct = 0,
                ds_incorrect = 0, ds_accuracy = 0, ds_new_words_learned = 0\<rparr>]"
    using get_daily_stats_all_zero [OF a, of "datetime_at (ymd2ord 2024 1 5) 72000000000"
        "log_db today_log"]
    by (simp only: today_texts)
  then show ?thesis
    using a by blast
qed

lemma today_log_dates:
  "study_log_rows (log_db today_log) \<noteq> []"
  "length (study_dates_query (study_log_rows (log_db today_log))) = 1"
  "study_log_rows (log_db []) = []"
  by code_simp+

theorem get_streak_info_raises_witness:
  "get_streak_info 0 (log_db []) =
      Inr \<lparr>current_streak = 0, longest_streak = 0, last_study_date = None\<rparr>
   \<and> study_log_rows (log_db today_log) \<noteq> []
   \<and> get_streak_info (datetime_at (ymd2ord 2024 1 5) 72000000000) (log_db today_log)
       = Inl AttributeError"
proof -
  have "get_streak_info 0 (log_db []) =
      Inr \<lparr>current_streak = 0, longest_streak = 0, last_study_date = None\<rparr>"
    using get_streak_info_raises [of "log_db []" 0] today_log_dates(3) by blast
  moreover have "get_streak_info (datetime_at (ymd2ord 2024 1 5) 72000000000) (log_db today_log)
       = (if length (study_dates_query (study_log_rows (log_db today_log))) = 1
          then Inl AttributeError else Inl TypeError)"
    using get_streak_info_raises [of "log_db today_log" "datetime_at (ymd2ord 2024 1 5) 72000000000"]
      today_log_dates(1) by blast
  then have "get_streak_info (datetime_at (ymd2ord 2024 1 5) 72000000000) (log_db today_log)
       = Inl AttributeError"
    by (simp only: today_log_dates(2) refl if_True)
  ultimately show ?thesis
    using today_log_dates(1) by blast
qed

text \<open>
  C1. On the log with entries on 2024-01-01, 2024-01-02, 2024-01-03 and 2024-01-05,
  asked on 2024-01-05, \<^verbatim>\<open>get_streak_info\<close> raises TypeError. The study dates are the
  four texts, latest first; none equals \<open>check_date\<close> or the day before it, so the loop
  for the current streak stops at 0; the loop for the longest streak then subtracts two
  texts.
\<close>

theorem streak_example_raises:
  "get_streak_info (datetime_at (ymd2ord 2024 1 5) 72000000000) (log_db streak_log) = Inl TypeError
   \<and> study_dates_query streak_log
       = [PyStr ''2024-01-05'', PyStr ''2024-01-03'', PyStr ''2024-01-02'', PyStr ''2024-01-01'']
   \<and> current_streak_loop (study_dates_query streak_log) (PyDate (ymd2ord 2024 1 5)) 0 = Inr 0
   \<and> py_sorted_reverse (study_dates_query streak_log) = Inr (study_dates_query streak_log)
   \<and> longest_streak_loop (study_dates_query streak_log) 1 1 = Inl TypeError"
  by code_simp

text \<open>
  On \<^verbatim>\<open>date\<close> objects in place of the texts, the two loops give 4 and 3 on these four
  days: the loop for the current streak accepts \<open>check_date - 1\<close> at every date, not only
  at the first, so the missing 2024-01-04 does not end the streak.
\<close>

lemma streak_loops_on_date_objects:
  "current_streak_loop
      (map PyDate [ymd2ord 2024 1 5, ymd2ord 2024 1 3, ymd2ord 2024 1 2, ymd2ord 2024 1 1])
      (PyDate (ymd2ord 2024 1 5)) 0 = Inr 4
   \<and> longest_streak_loop
      (map PyDate [ymd2ord 2024 1 5, ymd2ord 2024 1 3, ymd2ord 2024 1 2, ymd2ord 2024 1 1])
      1 1 = Inr 3"
  by code_simp

end
